theory Spec2Isabelle
  imports Main
begin

section \<open>The User entity\<close>

text \<open>
  Modelled from the spec: the class \<open>User\<close> of \<open>app/models.py\<close> is not under src/.
  Section 3 of the spec gives its columns: a store-assigned integer \<open>id\<close>, and the
  strings \<open>username\<close> (unique), \<open>email\<close> (unique) and \<open>password\<close> (stored as
  given). An object built in memory has no id yet; the store assigns one on insert.
\<close>

record user =
  user_id :: "int option"
  username :: string
  email :: string
  password :: string

text \<open>
  Modelled from the spec: the constructor \<open>User(username, email, password)\<close> of
  \<open>app/models.py\<close>, which keeps the three strings as given and leaves the id unset.
\<close>

definition User :: "string \<Rightarrow> string \<Rightarrow> string \<Rightarrow> user" where
  "User name mail pass = \<lparr>user_id = None, username = name, email = mail, password = pass\<rparr>"


section \<open>The data store and the session\<close>

text \<open>
  The store either has no schema or holds the User table, its rows in the store's
  natural order (the order of insertion). Connection failures are outside the model.
\<close>

datatype store = NoSchema | Table "user list"

datatype error = IntegrityError | OperationalError | InvalidRequestError | OverflowError

text \<open>What a command prints: a line of text, or a record (\<open>print(user)\<close>).\<close>

datatype printed = Msg string | Rec user

text \<open>A change a session holds until it is committed.\<close>

datatype change = Insert user | Update user | Delete user

record session =
  engine :: store
  pending :: "change list"

text \<open>
  Modelled from the spec: \<open>drop_all\<close>, \<open>create_db_and_tables\<close> and \<open>get_session\<close> of
  \<open>app/database.py\<close> are not under src/. Section 4.2 of the spec and the comments of
  \<open>initialize\<close> say what they do: delete all tables; recreate all tables (a table that
  exists is kept); hand out a session scoped to one command, released at the end of the
  \<open>with\<close> block.
\<close>

definition drop_all :: "store \<Rightarrow> store" where
  "drop_all st = NoSchema"

definition create_db_and_tables :: "store \<Rightarrow> store" where
  "create_db_and_tables st = (case st of NoSchema \<Rightarrow> Table [] | Table rows \<Rightarrow> Table rows)"

definition get_session :: "store \<Rightarrow> session" where
  "get_session st = \<lparr>engine = st, pending = []\<rparr>"

text \<open>Leaving the \<open>with\<close> block: what was not committed is dropped.\<close>

definition close :: "session \<Rightarrow> store" where
  "close db = engine db"

text \<open>\<open>db.add(obj)\<close>: an object without id is new, one with an id is a loaded row.\<close>

definition add :: "session \<Rightarrow> user \<Rightarrow> session" where
  "add db obj =
     db\<lparr>pending := pending db @ [case user_id obj of None \<Rightarrow> Insert obj | Some i \<Rightarrow> Update obj]\<rparr>"

definition delete :: "session \<Rightarrow> user \<Rightarrow> session" where
  "delete db obj = db\<lparr>pending := pending db @ [Delete obj]\<rparr>"

definition rollback :: "session \<Rightarrow> session" where
  "rollback db = db\<lparr>pending := []\<rparr>"

text \<open>The id of the next inserted row: one more than the largest id in the table.\<close>

definition next_id :: "user list \<Rightarrow> int" where
  "next_id rows = fold max (List.map_filter user_id rows) 0 + 1"

text \<open>The uniqueness rules of the User table: no two rows share a username or an email.\<close>

definition conflicts :: "user list \<Rightarrow> user \<Rightarrow> bool" where
  "conflicts rows obj = list_ex (\<lambda>r. username r = username obj \<or> email r = email obj) rows"

text \<open>
  Writing one change: INSERT assigns the id and appends the row; UPDATE and DELETE
  address the row by its id. A write that breaks a uniqueness rule is rejected.
\<close>

fun flush_change :: "user list \<Rightarrow> change \<Rightarrow> error + user list" where
  "flush_change rows (Insert obj) =
     (if conflicts rows obj then Inl IntegrityError
      else Inr (rows @ [obj\<lparr>user_id := Some (next_id rows)\<rparr>]))"
| "flush_change rows (Update obj) =
     (if conflicts (filter (\<lambda>r. user_id r \<noteq> user_id obj) rows) obj then Inl IntegrityError
      else Inr (map (\<lambda>r. if user_id r = user_id obj then obj else r) rows))"
| "flush_change rows (Delete obj) = Inr (filter (\<lambda>r. user_id r \<noteq> user_id obj) rows)"

fun flush :: "user list \<Rightarrow> change list \<Rightarrow> error + user list" where
  "flush rows [] = Inr rows"
| "flush rows (c # cs) =
     (case flush_change rows c of Inl e \<Rightarrow> Inl e | Inr rows' \<Rightarrow> flush rows' cs)"

text \<open>
  \<open>db.commit()\<close>: the pending changes are written in order; if one is rejected nothing
  is written and the error is raised, the session still holding its changes.
\<close>

definition commit :: "session \<Rightarrow> error + session" where
  "commit db =
     (if pending db = [] then Inr db
      else case engine db of
          NoSchema \<Rightarrow> Inl OperationalError
        | Table rows \<Rightarrow>
            (case flush rows (pending db) of
               Inl e \<Rightarrow> Inl e
             | Inr rows' \<Rightarrow> Inr \<lparr>engine = Table rows', pending = []\<rparr>))"

text \<open>
  Reading an object back after a commit (\<open>db.refresh(obj)\<close>, and any attribute access
  after a commit): the row of the object is loaded again. Objects are values here, so
  the row is found by the object's unique username.
\<close>

definition first :: "'a list \<Rightarrow> 'a option" where
  "first xs = (case xs of [] \<Rightarrow> None | x # rest \<Rightarrow> Some x)"

definition refresh :: "session \<Rightarrow> user \<Rightarrow> error + user" where
  "refresh db obj =
     (case engine db of
        NoSchema \<Rightarrow> Inl OperationalError
      | Table rows \<Rightarrow>
          (case first (filter (\<lambda>r. username r = username obj) rows) of
             None \<Rightarrow> Inl InvalidRequestError
           | Some r \<Rightarrow> Inr r))"


subsection \<open>Queries\<close>

text \<open>
  A statement takes the table to the rows it selects, or raises. \<open>db.exec(stmt)\<close> needs
  the table to exist; then the statement's values are bound and its rows are computed.
\<close>

type_synonym statement = "user list \<Rightarrow> error + user list"

definition exec :: "session \<Rightarrow> statement \<Rightarrow> error + user list" where
  "exec db stmt = (case engine db of NoSchema \<Rightarrow> Inl OperationalError | Table rows \<Rightarrow> stmt rows)"

text \<open>\<open>select(User)\<close>: every row.\<close>

definition select_User :: statement where
  "select_User rows = Inr rows"

text \<open>
  \<open>select(User).where(cond)\<close>: the condition is evaluated on each row in turn, and an
  error in evaluating it ends the statement. On an empty table it is never evaluated.
\<close>

fun select_where :: "(user \<Rightarrow> error + bool) \<Rightarrow> statement" where
  "select_where cond [] = Inr []"
| "select_where cond (r # rows) =
     (case cond r of
        Inl e \<Rightarrow> Inl e
      | Inr keep \<Rightarrow>
          (case select_where cond rows of
             Inl e \<Rightarrow> Inl e
           | Inr rest \<Rightarrow> Inr (if keep then r # rest else rest)))"

text \<open>The conditions: \<open>column == value\<close> and \<open>a | b\<close>.\<close>

definition sql_eq :: "string \<Rightarrow> string \<Rightarrow> error + bool" where
  "sql_eq column val = Inr (column = val)"

definition sql_or :: "error + bool \<Rightarrow> error + bool \<Rightarrow> error + bool" where
  "sql_or a b = (case a of Inl e \<Rightarrow> Inl e | Inr x \<Rightarrow> if x then Inr True else b)"

text \<open>
  OFFSET and LIMIT. The command takes Python ints, which have no bound, and the store
  binds them as signed 64-bit integers: a value outside \<open>-2^63 .. 2^63 - 1\<close> raises
  OverflowError. For a negative value in that range the model does what SQLite does
  (a negative OFFSET counts as 0, a negative LIMIT is no limit).
\<close>

definition sql_offset :: "int \<Rightarrow> statement" where
  "sql_offset n rows =
     (if n < - (2 ^ 63) \<or> 2 ^ 63 \<le> n then Inl OverflowError
      else if n < 0 then Inr rows
      else Inr (drop (nat n) rows))"

definition sql_limit :: "int \<Rightarrow> statement" where
  "sql_limit n rows =
     (if n < - (2 ^ 63) \<or> 2 ^ 63 \<le> n then Inl OverflowError
      else if n < 0 then Inr rows
      else Inr (take (nat n) rows))"

text \<open>
  Matching a LIKE pattern: in the pattern \<open>%\<close> stands for any run of characters and
  \<open>_\<close> for any one character; every other character is compared with the character of
  the value by the store's collation \<open>ceq\<close> (plain equality, or equality up to letter
  case).
\<close>

fun pattern_match :: "(char \<Rightarrow> char \<Rightarrow> bool) \<Rightarrow> string \<Rightarrow> string \<Rightarrow> bool" where
  "pattern_match ceq [] s = (s = [])"
| "pattern_match ceq (p # ps) s =
     (if p = CHR ''%'' then
        (pattern_match ceq ps s \<or>
         (case s of [] \<Rightarrow> False | c # t \<Rightarrow> pattern_match ceq (p # ps) t))
      else
        (case s of [] \<Rightarrow> False
         | c # t \<Rightarrow> (p = CHR ''_'' \<or> ceq p c) \<and> pattern_match ceq ps t))"

text \<open>
  The LIKE operator as SQLite evaluates it: a pattern longer than 50000 bytes is
  refused ("LIKE or GLOB pattern too complex", an OperationalError), any other is
  matched. A character of the model is one byte.
\<close>

definition like_match :: "(char \<Rightarrow> char \<Rightarrow> bool) \<Rightarrow> string \<Rightarrow> string \<Rightarrow> error + bool" where
  "like_match ceq pattern s =
     (if 50000 < length pattern then Inl OperationalError
      else Inr (pattern_match ceq pattern s))"

text \<open>
  \<open>column.contains(other)\<close> is the SQL \<open>column LIKE '%' || other || '%'\<close>; the
  characters of \<open>other\<close> are not escaped.
\<close>

definition contains :: "(char \<Rightarrow> char \<Rightarrow> bool) \<Rightarrow> string \<Rightarrow> string \<Rightarrow> error + bool" where
  "contains ceq column other = like_match ceq (CHR ''%'' # other @ [CHR ''%'']) column"


section \<open>The commands of app/cli.py\<close>

text \<open>
  A command takes the store and its arguments and either raises or returns the store
  it leaves behind with the lines it printed.
\<close>

type_synonym result = "error + store \<times> printed list"

definition initialize :: "store \<Rightarrow> result" where
  "initialize st =
     (let db = get_session st;
          db = db\<lparr>engine := drop_all (engine db)\<rparr>;
          db = db\<lparr>engine := create_db_and_tables (engine db)\<rparr>;
          bob = User ''bob'' ''bob@mail.com'' ''bobpass'';
          db = add db bob
      in case commit db of
           Inl e \<Rightarrow> Inl e
         | Inr db \<Rightarrow>
             (case refresh db bob of
                Inl e \<Rightarrow> Inl e
              | Inr bob \<Rightarrow> Inr (close db, [Msg ''Database Initialized''])))"

definition get_user :: "store \<Rightarrow> string \<Rightarrow> result" where
  "get_user st name =
     (let db = get_session st
      in case exec db (select_where (\<lambda>r. sql_eq (username r) name)) of
           Inl e \<Rightarrow> Inl e
         | Inr res \<Rightarrow>
             (case first res of
                None \<Rightarrow> Inr (close db, [Msg (name @ '' not found!'')])
              | Some usr \<Rightarrow> Inr (close db, [Rec usr])))"

definition get_all_users :: "store \<Rightarrow> result" where
  "get_all_users st =
     (let db = get_session st
      in case exec db select_User of
           Inl e \<Rightarrow> Inl e
         | Inr all_users \<Rightarrow>
             (if all_users = [] then Inr (close db, [Msg ''No users found''])
              else Inr (close db, map Rec all_users)))"

definition change_email :: "store \<Rightarrow> string \<Rightarrow> string \<Rightarrow> result" where
  "change_email st name new_email =
     (let db = get_session st
      in case exec db (select_where (\<lambda>r. sql_eq (username r) name)) of
           Inl e \<Rightarrow> Inl e
         | Inr res \<Rightarrow>
             (case first res of
                None \<Rightarrow> Inr (close db, [Msg (name @ '' not found! Unable to update email.'')])
              | Some usr \<Rightarrow>
                  (let usr = usr\<lparr>email := new_email\<rparr>;
                       db = add db usr
                   in case commit db of
                        Inl e \<Rightarrow> Inl e
                      | Inr db \<Rightarrow>
                          (case refresh db usr of
                             Inl e \<Rightarrow> Inl e
                           | Inr usr \<Rightarrow>
                               Inr (close db,
                                    [Msg (''Updated '' @ username usr @ [CHR 0x27]
                                          @ ''s email to '' @ email usr)])))))"

definition create_user :: "store \<Rightarrow> string \<Rightarrow> string \<Rightarrow> string \<Rightarrow> result" where
  "create_user st name mail pass =
     (let db = get_session st;
          newuser = User name mail pass;
          db = add db newuser
      in case commit db of
           Inl IntegrityError \<Rightarrow>
             (let db = rollback db
              in Inr (close db, [Msg ''Username or email already taken!'']))
         | Inl e \<Rightarrow> Inl e
         | Inr db \<Rightarrow>
             (case refresh db newuser of
                Inl e \<Rightarrow> Inl e
              | Inr newuser \<Rightarrow> Inr (close db, [Rec newuser])))"

definition delete_user :: "store \<Rightarrow> string \<Rightarrow> result" where
  "delete_user st name =
     (let db = get_session st
      in case exec db (select_where (\<lambda>r. sql_eq (username r) name)) of
           Inl e \<Rightarrow> Inl e
         | Inr res \<Rightarrow>
             (case first res of
                None \<Rightarrow> Inr (close db, [Msg (name @ '' not found! Unable to delete user.'')])
              | Some usr \<Rightarrow>
                  (let db = delete db usr
                   in case commit db of
                        Inl e \<Rightarrow> Inl e
                      | Inr db \<Rightarrow> Inr (close db, [Msg (name @ '' deleted'')]))))"

definition find_user :: "(char \<Rightarrow> char \<Rightarrow> bool) \<Rightarrow> store \<Rightarrow> string \<Rightarrow> result" where
  "find_user ceq st query =
     (let db = get_session st
      in case exec db (select_where
                         (\<lambda>r. sql_or (contains ceq (username r) query)
                                     (contains ceq (email r) query))) of
           Inl e \<Rightarrow> Inl e
         | Inr users \<Rightarrow>
             (if users = [] then
                Inr (close db, [Msg (''No users found matching '' @ [CHR 0x22] @ query @ [CHR 0x22])])
              else Inr (close db, map Rec users)))"

definition list_users :: "store \<Rightarrow> int \<Rightarrow> int \<Rightarrow> result" where
  "list_users st limit offset =
     (let db = get_session st
      in case exec db (\<lambda>rows. case sql_offset offset rows of
                                Inl e \<Rightarrow> Inl e
                              | Inr rest \<Rightarrow> sql_limit limit rest) of
           Inl e \<Rightarrow> Inl e
         | Inr users \<Rightarrow>
             (if users = [] then Inr (close db, [Msg ''No users found''])
              else Inr (close db, map Rec users)))"


section \<open>Notions the properties are stated with\<close>

text \<open>
  The invariant of the User table: usernames, emails and ids are pairwise distinct and
  every stored row has an id. The empty table has it and every command keeps it.
\<close>

definition store_inv :: "user list \<Rightarrow> bool" where
  "store_inv rows \<longleftrightarrow>
     distinct (map username rows) \<and> distinct (map email rows) \<and>
     distinct (map user_id rows) \<and> list_all (\<lambda>r. user_id r \<noteq> None) rows"

text \<open>
  Substring search as the specification words it, to be compared with \<open>contains\<close>:
  \<open>q\<close> occurs in \<open>s\<close> when it is a prefix of \<open>s\<close> or occurs in the tail of \<open>s\<close>,
  characters compared by the collation \<open>ceq\<close> and none of them special.
\<close>

fun is_prefix :: "(char \<Rightarrow> char \<Rightarrow> bool) \<Rightarrow> string \<Rightarrow> string \<Rightarrow> bool" where
  "is_prefix ceq [] s = True"
| "is_prefix ceq (p # ps) [] = False"
| "is_prefix ceq (p # ps) (c # t) = (ceq p c \<and> is_prefix ceq ps t)"

fun is_substring :: "(char \<Rightarrow> char \<Rightarrow> bool) \<Rightarrow> string \<Rightarrow> string \<Rightarrow> bool" where
  "is_substring ceq q [] = (q = [])"
| "is_substring ceq q (c # t) = (is_prefix ceq q (c # t) \<or> is_substring ceq q t)"


text \<open>
  The stores the commands can produce: a fresh schema, the result of \<open>initialize\<close>, and
  what the three writing commands leave behind when they return. (The reading commands
  leave the store as it is.)
\<close>

inductive reachable :: "store \<Rightarrow> bool" where
  fresh: "reachable (create_db_and_tables NoSchema)"
| init: "initialize st = Inr (st', out) \<Longrightarrow> reachable st'"
| created: "reachable st \<Longrightarrow> create_user st name mail pass = Inr (st', out) \<Longrightarrow> reachable st'"
| changed: "reachable st \<Longrightarrow> change_email st name new_email = Inr (st', out) \<Longrightarrow> reachable st'"
| deleted: "reachable st \<Longrightarrow> delete_user st name = Inr (st', out) \<Longrightarrow> reachable st'"


section \<open>Facts about the store\<close>

subsection \<open>Queries\<close>

lemma first_filter: "first (filter p xs) = find p xs"
  by (induction xs) (auto simp: first_def)

lemma find_username_None:
  "name \<notin> set (map username rows) \<Longrightarrow> find (\<lambda>r. username r = name) rows = None"
  by (auto simp: find_None_iff)

lemma find_username_Some:
  "name \<in> set (map username rows) \<Longrightarrow>
   \<exists>t. find (\<lambda>r. username r = name) rows = Some t \<and> t \<in> set rows \<and> username t = name"
  by (induction rows) auto

lemma find_append_new:
  "name \<notin> set (map username rows) \<Longrightarrow> username r = name \<Longrightarrow>
   find (\<lambda>x. username x = name) (rows @ [r]) = Some r"
  by (induction rows) auto

lemma find_map_preserve:
  "(\<And>x. P (g x) = P x) \<Longrightarrow> find P (map g xs) = map_option g (find P xs)"
  by (induction xs) auto

lemma close_get_session: "close (get_session st) = st"
  by (simp add: close_def get_session_def)

lemma exec_Table: "exec (get_session (Table rows)) stmt = stmt rows"
  by (simp add: exec_def get_session_def)

lemma select_where_Inr:
  "(\<And>r. r \<in> set rows \<Longrightarrow> cond r = Inr (p r)) \<Longrightarrow> select_where cond rows = Inr (filter p rows)"
  by (induction rows) auto

lemma select_where_eq:
  "select_where (\<lambda>r. sql_eq (f r) v) rows = Inr (filter (\<lambda>r. f r = v) rows)"
  by (rule select_where_Inr) (simp add: sql_eq_def)

lemma refresh_Table:
  "refresh \<lparr>engine = Table rows, pending = ps\<rparr> obj =
     (case find (\<lambda>r. username r = username obj) rows of
        None \<Rightarrow> Inl InvalidRequestError | Some r \<Rightarrow> Inr r)"
  unfolding refresh_def first_filter by simp

subsection \<open>Ids\<close>

lemma fold_max_ge: "a \<le> fold max xs (a::int)"
proof (induction xs arbitrary: a)
  case Nil
  then show ?case by simp
next
  case (Cons y ys)
  have "a \<le> max y a" by simp
  also have "max y a \<le> fold max ys (max y a)" by (rule Cons.IH)
  finally show ?case by simp
qed

lemma fold_max_mem: "x \<in> set xs \<Longrightarrow> x \<le> fold max xs (a::int)"
proof (induction xs arbitrary: a)
  case Nil
  then show ?case by simp
next
  case (Cons y ys)
  show ?case
  proof (cases "x = y")
    case True
    have "y \<le> max y a" by simp
    also have "max y a \<le> fold max ys (max y a)" by (rule fold_max_ge)
    finally show ?thesis using True by simp
  next
    case False
    with Cons show ?thesis by simp
  qed
qed

lemma next_id_fresh: "r \<in> set rows \<Longrightarrow> user_id r \<noteq> Some (next_id rows)"
proof
  assume r: "r \<in> set rows" and eq: "user_id r = Some (next_id rows)"
  then have "next_id rows \<in> set (List.map_filter user_id rows)"
    by (force simp: map_filter_def)
  then have "next_id rows \<le> fold max (List.map_filter user_id rows) 0"
    by (rule fold_max_mem)
  then show False by (simp add: next_id_def)
qed

lemma next_id_not_stored: "Some (next_id rows) \<notin> set (map user_id rows)"
proof -
  have "user_id x \<noteq> Some (next_id rows)" if "x \<in> set rows" for x
    using that by (rule next_id_fresh)
  then show ?thesis by (simp add: image_iff) metis
qed

subsection \<open>The uniqueness rules\<close>

lemma conflicts_iff:
  "conflicts rows obj \<longleftrightarrow>
     username obj \<in> set (map username rows) \<or> email obj \<in> set (map email rows)"
  unfolding conflicts_def list_ex_iff by (simp add: image_iff) metis

lemma distinct_map_filter_one:
  "distinct (map f xs) \<Longrightarrow> a \<in> set (map f xs) \<Longrightarrow> length (filter (\<lambda>x. f x = a) xs) = 1"
proof (induction xs)
  case Nil
  then show ?case by simp
next
  case (Cons x xs)
  show ?case
  proof (cases "f x = a")
    case True
    with Cons.prems have "a \<notin> set (map f xs)" by auto
    then have "filter (\<lambda>x. f x = a) xs = []" by (auto simp: filter_empty_conv)
    with True show ?thesis by simp
  next
    case False
    with Cons show ?thesis by auto
  qed
qed

lemma inv_id_eq_iff:
  assumes "store_inv rows" and "t \<in> set rows" and "r \<in> set rows"
  shows "user_id r = user_id t \<longleftrightarrow> r = t"
proof -
  have "inj_on user_id (set rows)"
    using assms(1) by (simp add: store_inv_def distinct_map)
  with assms(2,3) show ?thesis by (auto dest: inj_onD)
qed

lemma inv_username_eq_iff:
  assumes "store_inv rows" and "t \<in> set rows" and "r \<in> set rows"
  shows "username r = username t \<longleftrightarrow> r = t"
proof -
  have "inj_on username (set rows)"
    using assms(1) by (simp add: store_inv_def distinct_map)
  with assms(2,3) show ?thesis by (auto dest: inj_onD)
qed

lemma inv_has_id: "store_inv rows \<Longrightarrow> t \<in> set rows \<Longrightarrow> \<exists>i. user_id t = Some i"
  by (auto simp: store_inv_def list_all_iff)

text \<open>In a table that has the invariant, addressing a row by id is addressing it by username.\<close>

lemma update_rows_by_username:
  assumes "store_inv rows" and "t \<in> set rows"
  shows "map (\<lambda>r. if user_id r = user_id (t\<lparr>email := e\<rparr>) then t\<lparr>email := e\<rparr> else r) rows =
         map (\<lambda>r. if username r = username t then r\<lparr>email := e\<rparr> else r) rows"
proof (rule map_cong [OF refl])
  fix r assume r: "r \<in> set rows"
  show "(if user_id r = user_id (t\<lparr>email := e\<rparr>) then t\<lparr>email := e\<rparr> else r) =
        (if username r = username t then r\<lparr>email := e\<rparr> else r)"
    using inv_id_eq_iff [OF assms r] inv_username_eq_iff [OF assms r] by auto
qed

lemma filter_rows_by_username:
  assumes "store_inv rows" and "t \<in> set rows"
  shows "filter (\<lambda>r. user_id r \<noteq> user_id t) rows = filter (\<lambda>r. username r \<noteq> username t) rows"
proof (rule filter_cong [OF refl])
  fix r assume r: "r \<in> set rows"
  show "(user_id r \<noteq> user_id t) = (username r \<noteq> username t)"
    using inv_id_eq_iff [OF assms r] inv_username_eq_iff [OF assms r] by simp
qed

subsection \<open>Committing one change\<close>

lemma commit_insert:
  "commit (add (get_session (Table rows)) (User name mail pass)) =
     (if name \<in> set (map username rows) \<or> mail \<in> set (map email rows) then Inl IntegrityError
      else Inr \<lparr>engine = Table (rows @ [\<lparr>user_id = Some (next_id rows), username = name,
                                         email = mail, password = pass\<rparr>]), pending = []\<rparr>)"
  by (simp add: commit_def add_def get_session_def User_def conflicts_iff)

lemma commit_update:
  assumes "user_id obj = Some i"
  shows "commit (add (get_session (Table rows)) obj) =
     (if conflicts (filter (\<lambda>r. user_id r \<noteq> user_id obj) rows) obj then Inl IntegrityError
      else Inr \<lparr>engine = Table (map (\<lambda>r. if user_id r = user_id obj then obj else r) rows),
                pending = []\<rparr>)"
  using assms by (simp add: commit_def add_def get_session_def)

lemma commit_delete:
  "commit (delete (get_session (Table rows)) obj) =
     Inr \<lparr>engine = Table (filter (\<lambda>r. user_id r \<noteq> user_id obj) rows), pending = []\<rparr>"
  by (simp add: commit_def delete_def get_session_def)


section \<open>What each command does on a table\<close>

lemma get_user_Table:
  "get_user (Table rows) name =
     Inr (Table rows, case find (\<lambda>r. username r = name) rows of
                        None \<Rightarrow> [Msg (name @ '' not found!'')] | Some usr \<Rightarrow> [Rec usr])"
  by (simp add: get_user_def Let_def exec_Table select_where_eq first_filter close_get_session
      split: option.splits)

lemma create_user_Table:
  "create_user (Table rows) name mail pass =
     (if name \<in> set (map username rows) \<or> mail \<in> set (map email rows)
      then Inr (Table rows, [Msg ''Username or email already taken!''])
      else Inr (Table (rows @ [\<lparr>user_id = Some (next_id rows), username = name,
                                email = mail, password = pass\<rparr>]),
                [Rec \<lparr>user_id = Some (next_id rows), username = name,
                      email = mail, password = pass\<rparr>]))"
proof (cases "name \<in> set (map username rows) \<or> mail \<in> set (map email rows)")
  case True
  then show ?thesis
    unfolding create_user_def Let_def commit_insert
    by (simp add: rollback_def close_def add_def get_session_def)
next
  case False
  then have "name \<notin> set (map username rows)" by simp
  then have "find (\<lambda>x. username x = name)
      (rows @ [\<lparr>user_id = Some (next_id rows), username = name, email = mail, password = pass\<rparr>])
      = Some \<lparr>user_id = Some (next_id rows), username = name, email = mail, password = pass\<rparr>"
    by (rule find_append_new) simp
  with False show ?thesis
    unfolding create_user_def Let_def commit_insert
    by (simp add: refresh_Table close_def User_def)
qed

lemma change_email_absent:
  assumes "name \<notin> set (map username rows)"
  shows "change_email (Table rows) name new_email =
           Inr (Table rows, [Msg (name @ '' not found! Unable to update email.'')])"
proof -
  have "find (\<lambda>r. username r = name) rows = None"
    using assms by (rule find_username_None)
  then show ?thesis
    by (simp add: change_email_def Let_def exec_Table select_where_eq first_filter
        close_get_session)
qed

lemma change_email_found:
  assumes inv: "store_inv rows" and f: "find (\<lambda>r. username r = name) rows = Some t"
  shows "change_email (Table rows) name new_email =
           (if new_email \<in> set (map email (filter (\<lambda>r. username r \<noteq> name) rows))
            then Inl IntegrityError
            else Inr (Table (map (\<lambda>r. if username r = name then r\<lparr>email := new_email\<rparr> else r)
                              rows),
                      [Msg (''Updated '' @ name @ [CHR 0x27] @ ''s email to '' @ new_email)]))"
proof -
  from f have t: "t \<in> set rows" and n: "username t = name"
    by (auto simp: find_Some_iff)
  from inv t obtain i where i: "user_id t = Some i"
    using inv_has_id by blast
  let ?t = "t\<lparr>email := new_email\<rparr>"
  let ?others = "filter (\<lambda>r. username r \<noteq> name) rows"
  let ?rows = "map (\<lambda>r. if username r = name then r\<lparr>email := new_email\<rparr> else r) rows"
  have others: "filter (\<lambda>r. user_id r \<noteq> user_id ?t) rows = ?others"
    using filter_rows_by_username [OF inv t] n by simp
  have upd: "map (\<lambda>r. if user_id r = user_id ?t then ?t else r) rows = ?rows"
    using update_rows_by_username [OF inv t] n by simp
  have "name \<notin> set (map username ?others)" by auto
  then have confl: "conflicts ?others ?t \<longleftrightarrow> new_email \<in> set (map email ?others)"
    using n by (simp add: conflicts_iff)
  have c: "commit (add (get_session (Table rows)) ?t) =
      (if new_email \<in> set (map email ?others) then Inl IntegrityError
       else Inr \<lparr>engine = Table ?rows, pending = []\<rparr>)"
    using commit_update [of ?t i rows] i others upd confl by simp
  have "find (\<lambda>r. username r = name) ?rows =
        map_option (\<lambda>r. if username r = name then r\<lparr>email := new_email\<rparr> else r)
          (find (\<lambda>r. username r = name) rows)"
    by (rule find_map_preserve) simp
  then have r: "refresh \<lparr>engine = Table ?rows, pending = []\<rparr> ?t = Inr ?t"
    using f n by (simp add: refresh_Table)
  show ?thesis
    using f n c r
    by (simp add: change_email_def Let_def exec_Table select_where_eq first_filter close_def)
qed

lemma delete_user_absent:
  assumes "name \<notin> set (map username rows)"
  shows "delete_user (Table rows) name =
           Inr (Table rows, [Msg (name @ '' not found! Unable to delete user.'')])"
proof -
  have "find (\<lambda>r. username r = name) rows = None"
    using assms by (rule find_username_None)
  then show ?thesis
    by (simp add: delete_user_def Let_def exec_Table select_where_eq first_filter
        close_get_session)
qed

lemma delete_user_found:
  assumes "store_inv rows" and "name \<in> set (map username rows)"
  shows "delete_user (Table rows) name =
           Inr (Table (filter (\<lambda>r. username r \<noteq> name) rows), [Msg (name @ '' deleted'')])"
proof -
  from assms(2) obtain t where f: "find (\<lambda>r. username r = name) rows = Some t"
    and t: "t \<in> set rows" and n: "username t = name"
    using find_username_Some by blast
  have "filter (\<lambda>r. user_id r \<noteq> user_id t) rows = filter (\<lambda>r. username r \<noteq> name) rows"
    using filter_rows_by_username [OF assms(1) t] n by simp
  then show ?thesis
    using f
    by (simp add: delete_user_def Let_def exec_Table select_where_eq first_filter
        commit_delete close_def)
qed

lemma initialize_seed:
  "initialize st =
     Inr (Table [\<lparr>user_id = Some 1, username = ''bob'', email = ''bob@mail.com'',
                  password = ''bobpass''\<rparr>], [Msg ''Database Initialized''])"
  by (simp add: initialize_def get_session_def drop_all_def create_db_and_tables_def
      add_def User_def commit_def conflicts_def next_id_def map_filter_def
      refresh_Table close_def)


section \<open>The invariant is kept\<close>

lemma store_inv_Nil: "store_inv []"
  by (simp add: store_inv_def)

lemma store_inv_insert:
  assumes "store_inv rows" and "name \<notin> set (map username rows)"
    and "mail \<notin> set (map email rows)"
  shows "store_inv (rows @ [\<lparr>user_id = Some (next_id rows), username = name, email = mail,
                              password = pass\<rparr>])"
  using assms next_id_not_stored [of rows] by (simp add: store_inv_def)

lemma store_inv_filter: "store_inv rows \<Longrightarrow> store_inv (filter p rows)"
  by (simp add: store_inv_def distinct_map_filter list_all_iff)

lemma distinct_email_update:
  "distinct (map username rows) \<Longrightarrow> distinct (map email rows) \<Longrightarrow>
   new \<notin> set (map email (filter (\<lambda>r. username r \<noteq> name) rows)) \<Longrightarrow>
   distinct (map (\<lambda>r. if username r = name then new else email r) rows)"
proof (induction rows)
  case Nil
  then show ?case by simp
next
  case (Cons x xs)
  show ?case
  proof (cases "username x = name")
    case True
    from Cons.prems(1) have "username x \<notin> username ` set xs" by simp
    with True have other: "\<forall>r\<in>set xs. username r \<noteq> name" by (metis imageI)
    then have "filter (\<lambda>r. username r \<noteq> name) xs = xs" by (simp add: filter_id_conv)
    with Cons.prems(3) True have n: "new \<notin> set (map email xs)" by simp
    have m: "map (\<lambda>r. if username r = name then new else email r) xs = map email xs"
      using other by (simp cong: map_cong)
    from Cons.prems(2) have d: "distinct (map email xs)" by simp
    show ?thesis
      unfolding list.map distinct.simps m using True n d by simp
  next
    case False
    with Cons.prems(3) have "new \<noteq> email x" by auto
    moreover have "distinct (map (\<lambda>r. if username r = name then new else email r) xs)"
      using Cons False by simp
    ultimately show ?thesis using False Cons.prems(2) by (auto simp: image_iff)
  qed
qed

lemma store_inv_update:
  assumes "store_inv rows"
    and "new \<notin> set (map email (filter (\<lambda>r. username r \<noteq> name) rows))"
  shows "store_inv (map (\<lambda>r. if username r = name then r\<lparr>email := new\<rparr> else r) rows)"
proof -
  let ?g = "\<lambda>r. if username r = name then r\<lparr>email := new\<rparr> else r"
  have u: "map username (map ?g rows) = map username rows"
    by (simp add: comp_def cong: if_cong)
  have i: "map user_id (map ?g rows) = map user_id rows"
    by (simp add: comp_def cong: if_cong)
  have e: "map email (map ?g rows) = map (\<lambda>r. if username r = name then new else email r) rows"
    by (simp add: comp_def cong: if_cong)
  have "distinct (map email (map ?g rows))"
    unfolding e using assms by (intro distinct_email_update) (simp_all add: store_inv_def)
  moreover have "list_all (\<lambda>r. user_id r \<noteq> None) (map ?g rows)"
    using assms(1) by (auto simp: store_inv_def list_all_iff)
  ultimately show ?thesis
    using assms(1) unfolding store_inv_def u i by blast
qed

lemma store_inv_initialize:
  assumes "initialize st = Inr (Table rows', out)"
  shows "store_inv rows'"
  using assms unfolding initialize_seed by (auto simp: store_inv_def)

lemma store_inv_create_user:
  assumes "store_inv rows" and "create_user (Table rows) name mail pass = Inr (Table rows', out)"
  shows "store_inv rows'"
proof (cases "name \<in> set (map username rows) \<or> mail \<in> set (map email rows)")
  case True
  with assms show ?thesis by (simp add: create_user_Table)
next
  case False
  with assms(2) have "rows' = rows @ [\<lparr>user_id = Some (next_id rows), username = name,
      email = mail, password = pass\<rparr>]"
    by (simp add: create_user_Table)
  with False assms(1) show ?thesis by (simp add: store_inv_insert)
qed

lemma store_inv_change_email:
  assumes "store_inv rows" and "change_email (Table rows) name new = Inr (Table rows', out)"
  shows "store_inv rows'"
proof (cases "name \<in> set (map username rows)")
  case False
  with assms show ?thesis by (simp add: change_email_absent)
next
  case True
  then obtain t where f: "find (\<lambda>r. username r = name) rows = Some t"
    using find_username_Some by blast
  show ?thesis
  proof (cases "new \<in> set (map email (filter (\<lambda>r. username r \<noteq> name) rows))")
    case True
    with assms f show ?thesis by (simp add: change_email_found)
  next
    case False
    with assms f
    have "rows' = map (\<lambda>r. if username r = name then r\<lparr>email := new\<rparr> else r) rows"
      by (simp add: change_email_found)
    with False assms(1) show ?thesis by (simp add: store_inv_update)
  qed
qed

lemma store_inv_delete_user:
  assumes "store_inv rows" and "delete_user (Table rows) name = Inr (Table rows', out)"
  shows "store_inv rows'"
proof (cases "name \<in> set (map username rows)")
  case False
  with assms show ?thesis by (simp add: delete_user_absent)
next
  case True
  with assms have "rows' = filter (\<lambda>r. username r \<noteq> name) rows"
    by (simp add: delete_user_found)
  with assms(1) show ?thesis by (simp add: store_inv_filter)
qed

text \<open>Every store the commands can produce holds a table that has the invariant.\<close>

lemma reachable_inv: "reachable st \<Longrightarrow> \<exists>rows. st = Table rows \<and> store_inv rows"
proof (induction rule: reachable.induct)
  case fresh
  show ?case by (simp add: create_db_and_tables_def store_inv_Nil)
next
  case (init st st' out)
  then show ?case unfolding initialize_seed by (auto simp: store_inv_def)
next
  case (created st name mail pass st' out)
  then obtain rows where st: "st = Table rows" and inv: "store_inv rows" by blast
  from created(2) obtain rows' where "st' = Table rows'"
    unfolding st create_user_Table by (auto split: if_splits)
  with created(2) inv show ?case unfolding st by (auto dest: store_inv_create_user)
next
  case (changed st name new_email st' out)
  then obtain rows where st: "st = Table rows" and inv: "store_inv rows" by blast
  have "\<exists>rows'. st' = Table rows'"
  proof (cases "name \<in> set (map username rows)")
    case False
    with changed(2) show ?thesis unfolding st by (auto simp: change_email_absent)
  next
    case True
    then obtain t where "find (\<lambda>r. username r = name) rows = Some t"
      using find_username_Some by blast
    with changed(2) inv show ?thesis
      unfolding st by (auto simp: change_email_found split: if_splits)
  qed
  with changed(2) inv show ?case unfolding st by (auto dest: store_inv_change_email)
next
  case (deleted st name st' out)
  then obtain rows where st: "st = Table rows" and inv: "store_inv rows" by blast
  have "\<exists>rows'. st' = Table rows'"
  proof (cases "name \<in> set (map username rows)")
    case False
    with deleted(2) show ?thesis unfolding st by (auto simp: delete_user_absent)
  next
    case True
    with deleted(2) inv show ?thesis unfolding st by (auto simp: delete_user_found)
  qed
  with deleted(2) inv show ?case unfolding st by (auto dest: store_inv_delete_user)
qed


section \<open>LIKE and substrings\<close>

lemma is_prefix_Nil: "is_prefix ceq q [] = (q = [])"
  by (cases q) auto

lemma is_prefix_iff:
  "is_prefix ceq q s \<longleftrightarrow> (\<exists>mid post. s = mid @ post \<and> list_all2 ceq q mid)"
proof (induction ceq q s rule: is_prefix.induct)
  case (1 ceq s)
  then show ?case by simp
next
  case (2 ceq p ps)
  then show ?case by simp
next
  case (3 ceq p ps c t)
  show ?case
  proof
    assume "is_prefix ceq (p # ps) (c # t)"
    with 3 obtain mid post where "t = mid @ post" "list_all2 ceq ps mid" "ceq p c" by auto
    then have "c # t = (c # mid) @ post \<and> list_all2 ceq (p # ps) (c # mid)" by simp
    then show "\<exists>mid post. c # t = mid @ post \<and> list_all2 ceq (p # ps) mid" by blast
  next
    assume "\<exists>mid post. c # t = mid @ post \<and> list_all2 ceq (p # ps) mid"
    then obtain mid post where m: "c # t = mid @ post" "list_all2 ceq (p # ps) mid" by blast
    then obtain m ms where "mid = m # ms" "ceq p m" "list_all2 ceq ps ms"
      by (auto simp: list_all2_Cons1)
    with m 3 show "is_prefix ceq (p # ps) (c # t)" by auto
  qed
qed

text \<open>
  \<open>is_substring\<close> is the usual notion: \<open>q\<close> lies somewhere inside \<open>s\<close>, up to the collation.
\<close>

lemma is_substring_iff:
  "is_substring ceq q s \<longleftrightarrow> (\<exists>pre mid post. s = pre @ mid @ post \<and> list_all2 ceq q mid)"
proof (induction s)
  case Nil
  then show ?case by auto
next
  case (Cons c t)
  show ?case
  proof
    assume "is_substring ceq q (c # t)"
    then consider "is_prefix ceq q (c # t)" | "is_substring ceq q t" by auto
    then show "\<exists>pre mid post. c # t = pre @ mid @ post \<and> list_all2 ceq q mid"
    proof cases
      case 1
      then obtain mid post where "c # t = [] @ mid @ post \<and> list_all2 ceq q mid"
        by (auto simp: is_prefix_iff)
      then show ?thesis by blast
    next
      case 2
      with Cons obtain pre mid post where "t = pre @ mid @ post" "list_all2 ceq q mid" by blast
      then have "c # t = (c # pre) @ mid @ post \<and> list_all2 ceq q mid" by simp
      then show ?thesis by blast
    qed
  next
    assume "\<exists>pre mid post. c # t = pre @ mid @ post \<and> list_all2 ceq q mid"
    then obtain pre mid post where e: "c # t = pre @ mid @ post" and m: "list_all2 ceq q mid"
      by blast
    show "is_substring ceq q (c # t)"
    proof (cases pre)
      case Nil
      with e m have "is_prefix ceq q (c # t)" by (auto simp: is_prefix_iff)
      then show ?thesis by simp
    next
      case (Cons a pre')
      with e have "t = pre' @ mid @ post" by simp
      with m Cons.IH have "is_substring ceq q t" by blast
      then show ?thesis by simp
    qed
  qed
qed

lemma is_substring_eq_iff: "is_substring (=) q s \<longleftrightarrow> (\<exists>pre post. s = pre @ q @ post)"
  by (simp add: is_substring_iff list_all2_eq [symmetric])

lemma pattern_match_percent: "pattern_match ceq [CHR ''%''] s"
  by (induction s) auto

lemma pattern_match_prefix:
  "CHR ''%'' \<notin> set q \<Longrightarrow> CHR ''_'' \<notin> set q \<Longrightarrow>
   pattern_match ceq (q @ [CHR ''%'']) s = is_prefix ceq q s"
proof (induction ceq q s rule: is_prefix.induct)
  case (1 ceq s)
  show ?case by (simp only: append_Nil pattern_match_percent is_prefix.simps)
next
  case (2 ceq p ps)
  then show ?case by auto
next
  case (3 ceq p ps c t)
  then show ?case by auto
qed

lemma pattern_match_substring:
  assumes "CHR ''%'' \<notin> set q" and "CHR ''_'' \<notin> set q"
  shows "pattern_match ceq (CHR ''%'' # q @ [CHR ''%'']) s = is_substring ceq q s"
proof (induction s)
  case Nil
  show ?case using pattern_match_prefix [OF assms, of ceq "[]"]
    by (simp add: is_prefix_Nil)
next
  case (Cons c t)
  have "pattern_match ceq (CHR ''%'' # q @ [CHR ''%'']) (c # t) =
          (pattern_match ceq (q @ [CHR ''%'']) (c # t) \<or>
           pattern_match ceq (CHR ''%'' # q @ [CHR ''%'']) t)"
    by simp
  then show ?case
    using Cons pattern_match_prefix [OF assms, of ceq "c # t"] by simp
qed

text \<open>
  Whatever the query holds, a value that has it as a substring matches the pattern: a
  wildcard of the query also matches the character itself.
\<close>

lemma is_prefix_pattern_match:
  "is_prefix ceq q s \<Longrightarrow> pattern_match ceq (q @ [CHR ''%'']) s"
proof (induction ceq q s rule: is_prefix.induct)
  case (1 ceq s)
  show ?case by (simp only: append_Nil pattern_match_percent)
next
  case (2 ceq p ps)
  then show ?case by simp
next
  case (3 ceq p ps c t)
  then have "pattern_match ceq (ps @ [CHR ''%'']) t" and "ceq p c" by simp_all
  then show ?case by simp
qed

lemma is_substring_pattern_match:
  "is_substring ceq q s \<Longrightarrow> pattern_match ceq (CHR ''%'' # q @ [CHR ''%'']) s"
proof (induction s)
  case Nil
  then show ?case using is_prefix_pattern_match [of ceq "[]" "[]"] by simp
next
  case (Cons c t)
  from Cons.prems consider "is_prefix ceq q (c # t)" | "is_substring ceq q t" by auto
  then show ?case
  proof cases
    case 1
    then have "pattern_match ceq (q @ [CHR ''%'']) (c # t)" by (rule is_prefix_pattern_match)
    then show ?thesis by simp
  next
    case 2
    with Cons.IH have "pattern_match ceq (CHR ''%'' # q @ [CHR ''%'']) t" by simp
    then show ?thesis by simp
  qed
qed

lemma contains_bounded:
  "length other \<le> 49998 \<Longrightarrow>
   contains ceq s other = Inr (pattern_match ceq (CHR ''%'' # other @ [CHR ''%'']) s)"
  by (simp add: contains_def like_match_def)

lemma contains_too_long:
  "49998 < length other \<Longrightarrow> contains ceq s other = Inl OperationalError"
  by (simp add: contains_def like_match_def)

lemma contains_empty: "contains ceq s [] = Inr True"
proof -
  have "pattern_match ceq [CHR ''%'', CHR ''%''] s" by (induction s) auto
  then show ?thesis by (simp add: contains_def like_match_def)
qed

lemma sql_or_Inr: "sql_or (Inr a) (Inr b) = Inr (a \<or> b)"
  by (simp add: sql_or_def)

text \<open>What \<open>find_user\<close> does with a query the store takes.\<close>

lemma find_user_bounded:
  assumes "length query \<le> 49998"
  shows "find_user ceq (Table rows) query =
     Inr (Table rows,
          if filter (\<lambda>r. pattern_match ceq (CHR ''%'' # query @ [CHR ''%'']) (username r) \<or>
                          pattern_match ceq (CHR ''%'' # query @ [CHR ''%'']) (email r)) rows = []
          then [Msg (''No users found matching '' @ [CHR 0x22] @ query @ [CHR 0x22])]
          else map Rec
                 (filter (\<lambda>r. pattern_match ceq (CHR ''%'' # query @ [CHR ''%'']) (username r) \<or>
                               pattern_match ceq (CHR ''%'' # query @ [CHR ''%'']) (email r)) rows))"
proof -
  have "select_where (\<lambda>r. sql_or (contains ceq (username r) query)
                                 (contains ceq (email r) query)) rows =
        Inr (filter (\<lambda>r. pattern_match ceq (CHR ''%'' # query @ [CHR ''%'']) (username r) \<or>
                          pattern_match ceq (CHR ''%'' # query @ [CHR ''%'']) (email r)) rows)"
    by (rule select_where_Inr) (simp add: contains_bounded [OF assms] sql_or_Inr)
  then show ?thesis
    by (simp add: find_user_def Let_def exec_Table close_get_session)
qed


text \<open>
  The wildcards of an unescaped query select more than the rows that hold it: for the
  query \<open>%\<close> the store selects bob, whose username and email hold no \<open>%\<close>. The help
  text of the command promises the users whose username or email contains the given
  string.
\<close>

lemma find_user_percent_selects_all:
  "find_user (=) (Table [\<lparr>user_id = Some 1, username = ''bob'', email = ''bob@mail.com'',
                          password = ''bobpass''\<rparr>]) ''%'' =
     Inr (Table [\<lparr>user_id = Some 1, username = ''bob'', email = ''bob@mail.com'',
                  password = ''bobpass''\<rparr>],
          [Rec \<lparr>user_id = Some 1, username = ''bob'', email = ''bob@mail.com'',
                password = ''bobpass''\<rparr>]) \<and>
   \<not> is_substring (=) ''%'' ''bob'' \<and> \<not> is_substring (=) ''%'' ''bob@mail.com''"
  by (simp add: find_user_bounded)


section \<open>The claims\<close>

text \<open>
  In the witnesses the table holds the seed user bob (id 1) and, where a second user is
  needed, alice (id 2).
\<close>

text \<open>
  C1. When \<open>name\<close> is no stored username and \<open>mail\<close> no stored email,
  \<open>create_user\<close> succeeds, and \<open>get_user\<close> on the store it leaves prints one record:
  the username, email and password are the ones given, and its id is the one the store
  assigned, an id no earlier row has.
\<close>

theorem create_user_then_get_user:
  assumes "name \<notin> set (map username rows)" and "mail \<notin> set (map email rows)"
  shows "\<exists>st' r. create_user (Table rows) name mail pass = Inr (st', [Rec r]) \<and>
                 get_user st' name = Inr (st', [Rec r]) \<and>
                 username r = name \<and> email r = mail \<and> password r = pass \<and>
                 user_id r = Some (next_id rows) \<and> user_id r \<notin> set (map user_id rows)"
proof -
  let ?r = "\<lparr>user_id = Some (next_id rows), username = name, email = mail, password = pass\<rparr>"
  have c: "create_user (Table rows) name mail pass = Inr (Table (rows @ [?r]), [Rec ?r])"
    using assms by (simp add: create_user_Table)
  have "find (\<lambda>x. username x = name) (rows @ [?r]) = Some ?r"
    using assms(1) by (rule find_append_new) simp
  then have g: "get_user (Table (rows @ [?r])) name = Inr (Table (rows @ [?r]), [Rec ?r])"
    by (simp only: get_user_Table option.case)
  have f: "user_id ?r \<notin> set (map user_id rows)"
    using next_id_not_stored [of rows] by simp
  from c g f show ?thesis by (intro exI [of _ "Table (rows @ [?r])"] exI [of _ ?r]) simp
qed

theorem create_user_then_get_user_witness:
  "''alice'' \<notin> set (map username
      [\<lparr>user_id = Some 1, username = ''bob'', email = ''bob@mail.com'', password = ''bobpass''\<rparr>]) \<and>
   ''alice@mail.com'' \<notin> set (map email
      [\<lparr>user_id = Some 1, username = ''bob'', email = ''bob@mail.com'', password = ''bobpass''\<rparr>]) \<and>
   (\<exists>st' r.
      create_user (Table
        [\<lparr>user_id = Some 1, username = ''bob'', email = ''bob@mail.com'', password = ''bobpass''\<rparr>])
        ''alice'' ''alice@mail.com'' ''alicepass'' = Inr (st', [Rec r]) \<and>
      get_user st' ''alice'' = Inr (st', [Rec r]) \<and>
      r = \<lparr>user_id = Some 2, username = ''alice'', email = ''alice@mail.com'',
            password = ''alicepass''\<rparr>)"
  using create_user_then_get_user [of "''alice''"
      "[\<lparr>user_id = Some 1, username = ''bob'', email = ''bob@mail.com'', password = ''bobpass''\<rparr>]"
      "''alice@mail.com''" "''alicepass''"]
  by (simp add: create_user_Table get_user_Table next_id_def map_filter_def)

text \<open>
  C2. When the table (which has the invariant) already holds the username or the email,
  the commit inside \<open>create_user\<close> raises IntegrityError, the rollback leaves the session
  as it was opened, and the command returns normally: it prints only
  "Username or email already taken!", the table is the one it started from, and the
  username (the email) that was taken is still on exactly one row.
\<close>

theorem create_user_duplicate_rejected:
  assumes "store_inv rows"
    and "name \<in> set (map username rows) \<or> mail \<in> set (map email rows)"
  shows "commit (add (get_session (Table rows)) (User name mail pass)) = Inl IntegrityError \<and>
         rollback (add (get_session (Table rows)) (User name mail pass)) =
           get_session (Table rows) \<and>
         create_user (Table rows) name mail pass =
           Inr (Table rows, [Msg ''Username or email already taken!'']) \<and>
         (name \<in> set (map username rows) \<longrightarrow>
            length (filter (\<lambda>r. username r = name) rows) = 1) \<and>
         (mail \<in> set (map email rows) \<longrightarrow>
            length (filter (\<lambda>r. email r = mail) rows) = 1)"
proof -
  have "commit (add (get_session (Table rows)) (User name mail pass)) = Inl IntegrityError"
    using assms(2) by (simp add: commit_insert)
  moreover have "rollback (add (get_session (Table rows)) (User name mail pass)) =
           get_session (Table rows)"
    by (simp add: rollback_def add_def get_session_def)
  moreover have "create_user (Table rows) name mail pass =
           Inr (Table rows, [Msg ''Username or email already taken!''])"
    using assms(2) by (simp add: create_user_Table)
  moreover have "name \<in> set (map username rows) \<longrightarrow>
            length (filter (\<lambda>r. username r = name) rows) = 1"
    using assms(1) distinct_map_filter_one [of username rows name] by (simp add: store_inv_def)
  moreover have "mail \<in> set (map email rows) \<longrightarrow>
            length (filter (\<lambda>r. email r = mail) rows) = 1"
    using assms(1) distinct_map_filter_one [of email rows mail] by (simp add: store_inv_def)
  ultimately show ?thesis by blast
qed

theorem create_user_duplicate_rejected_witness:
  "store_inv
     [\<lparr>user_id = Some 1, username = ''bob'', email = ''bob@mail.com'', password = ''bobpass''\<rparr>] \<and>
   ''bob'' \<in> set (map username
     [\<lparr>user_id = Some 1, username = ''bob'', email = ''bob@mail.com'', password = ''bobpass''\<rparr>]) \<and>
   create_user (Table
     [\<lparr>user_id = Some 1, username = ''bob'', email = ''bob@mail.com'', password = ''bobpass''\<rparr>])
     ''bob'' ''robert@mail.com'' ''pass2'' =
     Inr (Table
       [\<lparr>user_id = Some 1, username = ''bob'', email = ''bob@mail.com'', password = ''bobpass''\<rparr>],
       [Msg ''Username or email already taken!'']) \<and>
   length (filter (\<lambda>r. username r = ''bob'')
     [\<lparr>user_id = Some 1, username = ''bob'', email = ''bob@mail.com'', password = ''bobpass''\<rparr>]) = 1"
  using create_user_duplicate_rejected [of
      "[\<lparr>user_id = Some 1, username = ''bob'', email = ''bob@mail.com'', password = ''bobpass''\<rparr>]"
      "''bob''" "''robert@mail.com''" "''pass2''"]
  by (simp add: store_inv_def)

text \<open>
  C3. On a table that has the invariant, for a stored username and a new email that no
  other user holds (so that the store accepts it), \<open>change_email\<close> leaves the table with
  the same rows in the same order, the row of that username with its email replaced and
  its id, username and password as they were, every other row as it was.
\<close>

theorem change_email_only_email:
  assumes "store_inv rows"
    and "name \<in> set (map username rows)"
    and "new_email \<notin> set (map email (filter (\<lambda>r. username r \<noteq> name) rows))"
  shows "change_email (Table rows) name new_email =
           Inr (Table (map (\<lambda>r. if username r = name then r\<lparr>email := new_email\<rparr> else r) rows),
                [Msg (''Updated '' @ name @ [CHR 0x27] @ ''s email to '' @ new_email)])"
proof -
  from assms(2) obtain t where "find (\<lambda>r. username r = name) rows = Some t"
    using find_username_Some by blast
  with assms(1,3) show ?thesis by (simp add: change_email_found)
qed

theorem change_email_only_email_witness:
  "store_inv
     [\<lparr>user_id = Some 1, username = ''bob'', email = ''bob@mail.com'', password = ''bobpass''\<rparr>,
      \<lparr>user_id = Some 2, username = ''alice'', email = ''alice@mail.com'',
        password = ''alicepass''\<rparr>] \<and>
   change_email (Table
     [\<lparr>user_id = Some 1, username = ''bob'', email = ''bob@mail.com'', password = ''bobpass''\<rparr>,
      \<lparr>user_id = Some 2, username = ''alice'', email = ''alice@mail.com'',
        password = ''alicepass''\<rparr>]) ''alice'' ''al@mail.com'' =
     Inr (Table
       [\<lparr>user_id = Some 1, username = ''bob'', email = ''bob@mail.com'', password = ''bobpass''\<rparr>,
        \<lparr>user_id = Some 2, username = ''alice'', email = ''al@mail.com'',
          password = ''alicepass''\<rparr>],
       [Msg (''Updated alice'' @ [CHR 0x27] @ ''s email to al@mail.com'')])"
  using change_email_only_email [of
      "[\<lparr>user_id = Some 1, username = ''bob'', email = ''bob@mail.com'', password = ''bobpass''\<rparr>,
        \<lparr>user_id = Some 2, username = ''alice'', email = ''alice@mail.com'',
          password = ''alicepass''\<rparr>]"
      "''alice''" "''al@mail.com''"]
  by (simp add: store_inv_def)

text \<open>
  C4. For a username that is not stored, \<open>change_email\<close> returns normally, prints that
  the user was not found, and leaves the table as it was.
\<close>

theorem change_email_not_found:
  assumes "name \<notin> set (map username rows)"
  shows "change_email (Table rows) name new_email =
           Inr (Table rows, [Msg (name @ '' not found! Unable to update email.'')])"
  using assms by (rule change_email_absent)

theorem change_email_not_found_witness:
  "''carol'' \<notin> set (map username
     [\<lparr>user_id = Some 1, username = ''bob'', email = ''bob@mail.com'', password = ''bobpass''\<rparr>]) \<and>
   change_email (Table
     [\<lparr>user_id = Some 1, username = ''bob'', email = ''bob@mail.com'', password = ''bobpass''\<rparr>])
     ''carol'' ''carol@mail.com'' =
     Inr (Table
       [\<lparr>user_id = Some 1, username = ''bob'', email = ''bob@mail.com'', password = ''bobpass''\<rparr>],
       [Msg ''carol not found! Unable to update email.''])"
  using change_email_not_found [of "''carol''"
      "[\<lparr>user_id = Some 1, username = ''bob'', email = ''bob@mail.com'', password = ''bobpass''\<rparr>]"
      "''carol@mail.com''"]
  by simp

text \<open>
  C5. On a table that has the invariant, \<open>delete_user\<close> of a stored username leaves the
  rows of all other usernames, in their order, which is one row fewer; \<open>get_user\<close> on the
  store it leaves prints that the user was not found.
\<close>

theorem delete_user_then_get_user:
  assumes "store_inv rows" and "name \<in> set (map username rows)"
  shows "delete_user (Table rows) name =
           Inr (Table (filter (\<lambda>r. username r \<noteq> name) rows), [Msg (name @ '' deleted'')]) \<and>
         length (filter (\<lambda>r. username r \<noteq> name) rows) + 1 = length rows \<and>
         get_user (Table (filter (\<lambda>r. username r \<noteq> name) rows)) name =
           Inr (Table (filter (\<lambda>r. username r \<noteq> name) rows), [Msg (name @ '' not found!'')])"
proof -
  have d: "delete_user (Table rows) name =
           Inr (Table (filter (\<lambda>r. username r \<noteq> name) rows), [Msg (name @ '' deleted'')])"
    using assms by (rule delete_user_found)
  have "length (filter (\<lambda>r. username r = name) rows) = 1"
    using assms distinct_map_filter_one [of username rows name] by (simp add: store_inv_def)
  then have l: "length (filter (\<lambda>r. username r \<noteq> name) rows) + 1 = length rows"
    using sum_length_filter_compl [of "\<lambda>r. username r = name" rows] by simp
  have "find (\<lambda>r. username r = name) (filter (\<lambda>r. username r \<noteq> name) rows) = None"
    by (simp add: find_None_iff)
  then have "get_user (Table (filter (\<lambda>r. username r \<noteq> name) rows)) name =
           Inr (Table (filter (\<lambda>r. username r \<noteq> name) rows), [Msg (name @ '' not found!'')])"
    by (simp only: get_user_Table option.case)
  with d l show ?thesis by simp
qed

theorem delete_user_then_get_user_witness:
  "store_inv
     [\<lparr>user_id = Some 1, username = ''bob'', email = ''bob@mail.com'', password = ''bobpass''\<rparr>,
      \<lparr>user_id = Some 2, username = ''alice'', email = ''alice@mail.com'',
        password = ''alicepass''\<rparr>] \<and>
   delete_user (Table
     [\<lparr>user_id = Some 1, username = ''bob'', email = ''bob@mail.com'', password = ''bobpass''\<rparr>,
      \<lparr>user_id = Some 2, username = ''alice'', email = ''alice@mail.com'',
        password = ''alicepass''\<rparr>]) ''bob'' =
     Inr (Table
       [\<lparr>user_id = Some 2, username = ''alice'', email = ''alice@mail.com'',
          password = ''alicepass''\<rparr>], [Msg ''bob deleted'']) \<and>
   get_user (Table
       [\<lparr>user_id = Some 2, username = ''alice'', email = ''alice@mail.com'',
          password = ''alicepass''\<rparr>]) ''bob'' =
     Inr (Table
       [\<lparr>user_id = Some 2, username = ''alice'', email = ''alice@mail.com'',
          password = ''alicepass''\<rparr>], [Msg ''bob not found!''])"
  using delete_user_then_get_user [of
      "[\<lparr>user_id = Some 1, username = ''bob'', email = ''bob@mail.com'', password = ''bobpass''\<rparr>,
        \<lparr>user_id = Some 2, username = ''alice'', email = ''alice@mail.com'',
          password = ''alicepass''\<rparr>]"
      "''bob''"]
  by (simp add: store_inv_def)

text \<open>
  C6 (as amended). For a query of at most 49998 bytes \<open>find_user\<close> returns
  normally and prints, in the order of the table, the rows selected by a condition
  \<open>keep\<close>, or the line \<open>No users found matching "query"\<close> when it selects none. Every
  row whose username or email has the query as a substring (characters compared by the
  store's collation) is selected; and when the query has neither of the LIKE wildcards
  \<open>%\<close> and \<open>_\<close>, exactly those rows are.
\<close>

theorem find_user_substring:
  assumes "length query \<le> 49998"
  shows "\<exists>keep.
           find_user ceq (Table rows) query =
             Inr (Table rows,
                  if filter keep rows = []
                  then [Msg (''No users found matching '' @ [CHR 0x22] @ query @ [CHR 0x22])]
                  else map Rec (filter keep rows)) \<and>
           (\<forall>r. is_substring ceq query (username r) \<or> is_substring ceq query (email r)
                  \<longrightarrow> keep r) \<and>
           (CHR ''%'' \<notin> set query \<and> CHR ''_'' \<notin> set query \<longrightarrow>
              (\<forall>r. keep r \<longleftrightarrow>
                     is_substring ceq query (username r) \<or> is_substring ceq query (email r)))"
proof -
  let ?pat = "CHR ''%'' # query @ [CHR ''%'']"
  let ?keep = "\<lambda>r. pattern_match ceq ?pat (username r) \<or> pattern_match ceq ?pat (email r)"
  have "find_user ceq (Table rows) query =
             Inr (Table rows,
                  if filter ?keep rows = []
                  then [Msg (''No users found matching '' @ [CHR 0x22] @ query @ [CHR 0x22])]
                  else map Rec (filter ?keep rows))"
    using assms by (rule find_user_bounded)
  moreover have "\<forall>r. is_substring ceq query (username r) \<or> is_substring ceq query (email r)
                  \<longrightarrow> ?keep r"
    by (auto dest: is_substring_pattern_match)
  moreover have "CHR ''%'' \<notin> set query \<and> CHR ''_'' \<notin> set query \<longrightarrow>
              (\<forall>r. ?keep r \<longleftrightarrow>
                     is_substring ceq query (username r) \<or> is_substring ceq query (email r))"
  proof (intro impI allI)
    fix r
    assume "CHR ''%'' \<notin> set query \<and> CHR ''_'' \<notin> set query"
    then have a: "CHR ''%'' \<notin> set query" and b: "CHR ''_'' \<notin> set query" by simp_all
    show "?keep r \<longleftrightarrow>
            is_substring ceq query (username r) \<or> is_substring ceq query (email r)"
      by (simp only: pattern_match_substring [OF a b])
  qed
  ultimately show ?thesis by blast
qed

theorem find_user_substring_witness:
  "length ''mail.com'' \<le> 49998 \<and>
   CHR ''%'' \<notin> set ''mail.com'' \<and> CHR ''_'' \<notin> set ''mail.com'' \<and>
   find_user (=) (Table
     [\<lparr>user_id = Some 1, username = ''bob'', email = ''bob@mail.com'', password = ''bobpass''\<rparr>,
      \<lparr>user_id = Some 2, username = ''alice'', email = ''alice@uwi.edu'',
        password = ''alicepass''\<rparr>]) ''mail.com'' =
     Inr (Table
       [\<lparr>user_id = Some 1, username = ''bob'', email = ''bob@mail.com'', password = ''bobpass''\<rparr>,
        \<lparr>user_id = Some 2, username = ''alice'', email = ''alice@uwi.edu'',
          password = ''alicepass''\<rparr>],
       [Rec \<lparr>user_id = Some 1, username = ''bob'', email = ''bob@mail.com'',
              password = ''bobpass''\<rparr>])"
proof -
  let ?rows = "[\<lparr>user_id = Some 1, username = ''bob'', email = ''bob@mail.com'',
                  password = ''bobpass''\<rparr>,
                \<lparr>user_id = Some 2, username = ''alice'', email = ''alice@uwi.edu'',
                  password = ''alicepass''\<rparr>]"
  have len: "length ''mail.com'' \<le> 49998" by simp
  have plain: "CHR ''%'' \<notin> set ''mail.com'' \<and> CHR ''_'' \<notin> set ''mail.com''" by simp
  from find_user_substring [OF len, of "(=)" ?rows] plain
  obtain keep where res: "find_user (=) (Table ?rows) ''mail.com'' =
        Inr (Table ?rows,
             if filter keep ?rows = []
             then [Msg (''No users found matching '' @ [CHR 0x22] @ ''mail.com'' @ [CHR 0x22])]
             else map Rec (filter keep ?rows))"
    and keep: "\<And>r. keep r \<longleftrightarrow>
                 is_substring (=) ''mail.com'' (username r) \<or>
                 is_substring (=) ''mail.com'' (email r)"
    by blast
  have "filter keep ?rows =
        [\<lparr>user_id = Some 1, username = ''bob'', email = ''bob@mail.com'',
           password = ''bobpass''\<rparr>]"
    by (simp add: keep)
  with res len plain show ?thesis by simp
qed

text \<open>
  C6 as stated fails. A query of 49999 bytes makes the command raise on a table
  that holds a row, where the claim has it return the matching records or report that
  there are none; and when nothing matches, the line printed is not
  \<open>no users found matching zed\<close>.
\<close>

theorem find_user_counterexample:
  "find_user (=) (Table [\<lparr>user_id = Some 1, username = ''bob'', email = ''bob@mail.com'',
                          password = ''bobpass''\<rparr>]) (replicate 49999 (CHR ''a'')) =
     Inl OperationalError \<and>
   find_user (=) (Table [\<lparr>user_id = Some 1, username = ''bob'', email = ''bob@mail.com'',
                          password = ''bobpass''\<rparr>]) ''zed'' =
     Inr (Table [\<lparr>user_id = Some 1, username = ''bob'', email = ''bob@mail.com'',
                  password = ''bobpass''\<rparr>],
          [Msg (''No users found matching '' @ [CHR 0x22] @ ''zed'' @ [CHR 0x22])]) \<and>
   ''No users found matching '' @ [CHR 0x22] @ ''zed'' @ [CHR 0x22]
     \<noteq> ''no users found matching zed''"
proof -
  have "find_user (=) (Table [\<lparr>user_id = Some 1, username = ''bob'', email = ''bob@mail.com'',
                          password = ''bobpass''\<rparr>]) (replicate 49999 (CHR ''a'')) =
     Inl OperationalError"
    by (simp add: find_user_def Let_def exec_Table contains_too_long sql_or_def)
  moreover have "find_user (=) (Table [\<lparr>user_id = Some 1, username = ''bob'',
                          email = ''bob@mail.com'', password = ''bobpass''\<rparr>]) ''zed'' =
     Inr (Table [\<lparr>user_id = Some 1, username = ''bob'', email = ''bob@mail.com'',
                  password = ''bobpass''\<rparr>],
          [Msg (''No users found matching '' @ [CHR 0x22] @ ''zed'' @ [CHR 0x22])])"
    by (simp add: find_user_bounded)
  ultimately show ?thesis by simp
qed

text \<open>
  C7 (as amended). For a limit and an offset from 0 up to \<open>2^63 - 1\<close>, \<open>list_users\<close>
  prints the rows left after dropping the first \<open>offset\<close> rows of the table and taking
  at most \<open>limit\<close> of the rest (or "No users found" when that page is empty). On a table
  of five rows, limit 2 and offset 1 give the second and the third row.
\<close>

theorem list_users_page:
  assumes "0 \<le> limit" and "limit < 2 ^ 63" and "0 \<le> offset" and "offset < 2 ^ 63"
  shows "list_users (Table rows) limit offset =
           Inr (Table rows,
                if take (nat limit) (drop (nat offset) rows) = [] then [Msg ''No users found'']
                else map Rec (take (nat limit) (drop (nat offset) rows))) \<and>
         list_users (Table [u1, u2, u3, u4, u5]) 2 1 =
           Inr (Table [u1, u2, u3, u4, u5], [Rec u2, Rec u3])"
  using assms
  by (simp add: list_users_def Let_def exec_Table close_get_session sql_limit_def sql_offset_def)

theorem list_users_page_witness:
  "(0::int) \<le> 2 \<and> (2::int) < 2 ^ 63 \<and> (0::int) \<le> 1 \<and> (1::int) < 2 ^ 63 \<and>
   list_users (Table
     [\<lparr>user_id = Some 1, username = ''bob'', email = ''bob@mail.com'', password = ''bobpass''\<rparr>,
      \<lparr>user_id = Some 2, username = ''alice'', email = ''alice@mail.com'', password = ''a''\<rparr>,
      \<lparr>user_id = Some 3, username = ''carol'', email = ''carol@mail.com'', password = ''c''\<rparr>,
      \<lparr>user_id = Some 4, username = ''dave'', email = ''dave@mail.com'', password = ''d''\<rparr>,
      \<lparr>user_id = Some 5, username = ''erin'', email = ''erin@mail.com'', password = ''e''\<rparr>])
     2 1 =
     Inr (Table
       [\<lparr>user_id = Some 1, username = ''bob'', email = ''bob@mail.com'', password = ''bobpass''\<rparr>,
        \<lparr>user_id = Some 2, username = ''alice'', email = ''alice@mail.com'', password = ''a''\<rparr>,
        \<lparr>user_id = Some 3, username = ''carol'', email = ''carol@mail.com'', password = ''c''\<rparr>,
        \<lparr>user_id = Some 4, username = ''dave'', email = ''dave@mail.com'', password = ''d''\<rparr>,
        \<lparr>user_id = Some 5, username = ''erin'', email = ''erin@mail.com'', password = ''e''\<rparr>],
       [Rec \<lparr>user_id = Some 2, username = ''alice'', email = ''alice@mail.com'',
              password = ''a''\<rparr>,
        Rec \<lparr>user_id = Some 3, username = ''carol'', email = ''carol@mail.com'',
              password = ''c''\<rparr>])"
  using list_users_page [of 2 1
      "[\<lparr>user_id = Some 1, username = ''bob'', email = ''bob@mail.com'', password = ''bobpass''\<rparr>,
        \<lparr>user_id = Some 2, username = ''alice'', email = ''alice@mail.com'', password = ''a''\<rparr>,
        \<lparr>user_id = Some 3, username = ''carol'', email = ''carol@mail.com'', password = ''c''\<rparr>,
        \<lparr>user_id = Some 4, username = ''dave'', email = ''dave@mail.com'', password = ''d''\<rparr>,
        \<lparr>user_id = Some 5, username = ''erin'', email = ''erin@mail.com'', password = ''e''\<rparr>]"]
  by simp

text \<open>
  C7 as stated fails. The limit \<open>2^63\<close> is a non-negative integer, and so is the offset
  \<open>2^63\<close>; with either the command raises OverflowError and returns no page.
\<close>

theorem list_users_counterexample:
  "list_users (Table [\<lparr>user_id = Some 1, username = ''bob'', email = ''bob@mail.com'',
                        password = ''bobpass''\<rparr>]) 9223372036854775808 0 =
     Inl OverflowError \<and>
   list_users (Table [\<lparr>user_id = Some 1, username = ''bob'', email = ''bob@mail.com'',
                        password = ''bobpass''\<rparr>]) 2 9223372036854775808 =
     Inl OverflowError \<and>
   (9223372036854775808::int) = 2 ^ 63"
  by (simp add: list_users_def Let_def exec_Table sql_limit_def sql_offset_def)

text \<open>
  C8. From any store, with or without a schema and whatever its rows, \<open>initialize\<close>
  run twice returns normally both times and leaves a table with exactly one row, the
  seed user bob.
\<close>

theorem initialize_twice:
  "\<exists>st1 out1 out2.
     initialize st = Inr (st1, out1) \<and>
     initialize st1 =
       Inr (Table [\<lparr>user_id = Some 1, username = ''bob'', email = ''bob@mail.com'',
                    password = ''bobpass''\<rparr>], out2)"
  using initialize_seed by blast

text \<open>
  C9. On a table that has the invariant, \<open>change_email\<close> of a stored user to the email
  of another stored user raises IntegrityError: the error leaves the command. The same
  email given to \<open>create_user\<close> is caught there and reported as a printed line.
\<close>

theorem change_email_duplicate_raises:
  assumes "store_inv rows"
    and "name \<in> set (map username rows)"
    and "other \<in> set rows" and "username other \<noteq> name" and "email other = new_email"
  shows "change_email (Table rows) name new_email = Inl IntegrityError \<and>
         create_user (Table rows) name2 new_email pass =
           Inr (Table rows, [Msg ''Username or email already taken!''])"
proof -
  from assms(2) obtain t where f: "find (\<lambda>r. username r = name) rows = Some t"
    using find_username_Some by blast
  have "new_email \<in> set (map email (filter (\<lambda>r. username r \<noteq> name) rows))"
    using assms(3,4,5) by force
  then have "change_email (Table rows) name new_email = Inl IntegrityError"
    using assms(1) f by (simp add: change_email_found)
  moreover have "new_email \<in> set (map email rows)"
    using assms(3,5) by force
  then have "create_user (Table rows) name2 new_email pass =
           Inr (Table rows, [Msg ''Username or email already taken!''])"
    by (simp add: create_user_Table)
  ultimately show ?thesis by simp
qed

theorem change_email_duplicate_raises_witness:
  "store_inv
     [\<lparr>user_id = Some 1, username = ''bob'', email = ''bob@mail.com'', password = ''bobpass''\<rparr>,
      \<lparr>user_id = Some 2, username = ''alice'', email = ''alice@mail.com'',
        password = ''alicepass''\<rparr>] \<and>
   change_email (Table
     [\<lparr>user_id = Some 1, username = ''bob'', email = ''bob@mail.com'', password = ''bobpass''\<rparr>,
      \<lparr>user_id = Some 2, username = ''alice'', email = ''alice@mail.com'',
        password = ''alicepass''\<rparr>]) ''alice'' ''bob@mail.com'' = Inl IntegrityError"
  using change_email_duplicate_raises [of
      "[\<lparr>user_id = Some 1, username = ''bob'', email = ''bob@mail.com'', password = ''bobpass''\<rparr>,
        \<lparr>user_id = Some 2, username = ''alice'', email = ''alice@mail.com'',
          password = ''alicepass''\<rparr>]"
      "''alice''"
      "\<lparr>user_id = Some 1, username = ''bob'', email = ''bob@mail.com'', password = ''bobpass''\<rparr>"
      "''bob@mail.com''"]
  by (simp add: store_inv_def)

text \<open>
  C10. With the empty query \<open>find_user\<close> prints every row of the table, whatever the
  collation; it prints the line \<open>No users found matching ""\<close> only when the table is
  empty.
\<close>

theorem find_user_empty_query:
  "find_user ceq (Table rows) [] =
     Inr (Table rows,
          if rows = [] then [Msg (''No users found matching '' @ [CHR 0x22, CHR 0x22])]
          else map Rec rows)"
proof -
  have "select_where (\<lambda>r. sql_or (contains ceq (username r) [])
                                 (contains ceq (email r) [])) rows =
        Inr (filter (\<lambda>r. True) rows)"
    by (rule select_where_Inr) (simp add: contains_empty sql_or_def)
  then show ?thesis
    by (simp add: find_user_def Let_def exec_Table close_get_session)
qed

end
